theory Spec2Isabelle
  imports Main "HOL-Library.Sublist"
begin

section \<open>Data model\<close>

text \<open>
  The module \<^verbatim>\<open>kcidb_io/schema/abstract.py\<close>: the metaclass \<^verbatim>\<open>MetaVersion\<close> and the abstract
  class \<^verbatim>\<open>Version\<close>, whose class methods classify, validate, count, upgrade and merge
  datasets along a lineage of schema versions. A method is a function of the class it is
  called on; an exception is a result \<open>Inl\<close>; an \<^verbatim>\<open>assert\<close> that fails raises
  \<^verbatim>\<open>AssertionError\<close>.
\<close>

subsection \<open>Datasets and errors\<close>

text \<open>
  A dataset is an untyped JSON document held in Python objects. Numbers are the integers
  (version numbers and the like); a dictionary is an association list in insertion order,
  its keys distinct as in a Python \<^verbatim>\<open>dict\<close>. Datasets are values here, so
  \<^verbatim>\<open>deepcopy\<close> is the identity and an in-place change returns the changed value.
  This is exact for the value a call returns as long as the call reads no object that it
  has changed through another name: \<^verbatim>\<open>upgrade\<close> has one dataset, so it is exact for
  either value of its \<^verbatim>\<open>copy\<close> flag; \<^verbatim>\<open>merge\<close> has several, and is modelled for the
  default flags only (see there).
\<close>

datatype jval =
    JNull
  | JBool bool
  | JNum int
  | JStr string
  | JArr "jval list"
  | JObj "(string \<times> jval) list"

text \<open>
  The exceptions the module can raise. \<open>ValidationError\<close> carries the diagnostic
  of the schema validator, \<open>OtherError\<close> whatever a version's own transform raises.
\<close>

datatype error =
    ValidationError string
  | AssertionError
  | AttributeError
  | TypeError
  | KeyError
  | NotImplementedError
  | OtherError string

definition deepcopy :: "jval \<Rightarrow> jval" where
  "deepcopy data = data"

subsection \<open>Python operations on untyped values\<close>

text \<open>\<^verbatim>\<open>k in data\<close> for a string \<open>k\<close>: key membership in a dictionary, element
  membership in a list, substring test in a string, a \<^verbatim>\<open>TypeError\<close> otherwise.\<close>

fun py_in :: "string \<Rightarrow> jval \<Rightarrow> error + bool" where
  "py_in k (JObj kvs) = Inr (k \<in> set (map fst kvs))"
| "py_in k (JArr xs) = Inr (JStr k \<in> set xs)"
| "py_in k (JStr s) = Inr (sublist k s)"
| "py_in k JNull = Inl TypeError"
| "py_in k (JBool b) = Inl TypeError"
| "py_in k (JNum n) = Inl TypeError"

text \<open>\<^verbatim>\<open>data[k]\<close> for a string \<open>k\<close>.\<close>

fun py_getitem :: "jval \<Rightarrow> string \<Rightarrow> error + jval" where
  "py_getitem (JObj kvs) k = (case map_of kvs k of None \<Rightarrow> Inl KeyError | Some v \<Rightarrow> Inr v)"
| "py_getitem JNull k = Inl TypeError"
| "py_getitem (JBool b) k = Inl TypeError"
| "py_getitem (JNum n) k = Inl TypeError"
| "py_getitem (JStr s) k = Inl TypeError"
| "py_getitem (JArr xs) k = Inl TypeError"

text \<open>\<^verbatim>\<open>data.get(k, default)\<close>: only a dictionary has the method.\<close>

fun py_get :: "jval \<Rightarrow> string \<Rightarrow> jval \<Rightarrow> error + jval" where
  "py_get (JObj kvs) k dflt = (case map_of kvs k of None \<Rightarrow> Inr dflt | Some v \<Rightarrow> Inr v)"
| "py_get JNull k dflt = Inl AttributeError"
| "py_get (JBool b) k dflt = Inl AttributeError"
| "py_get (JNum n) k dflt = Inl AttributeError"
| "py_get (JStr s) k dflt = Inl AttributeError"
| "py_get (JArr xs) k dflt = Inl AttributeError"

text \<open>\<^verbatim>\<open>data[k] = v\<close> for a string \<open>k\<close>: an existing key keeps its place, a new key
  goes last.\<close>

fun setitem :: "string \<Rightarrow> jval \<Rightarrow> (string \<times> jval) list \<Rightarrow> (string \<times> jval) list" where
  "setitem k v [] = [(k, v)]"
| "setitem k v ((k', v') # kvs) = (if k' = k then (k, v) # kvs else (k', v') # setitem k v kvs)"

fun py_setitem :: "jval \<Rightarrow> string \<Rightarrow> jval \<Rightarrow> error + jval" where
  "py_setitem (JObj kvs) k v = Inr (JObj (setitem k v kvs))"
| "py_setitem JNull k v = Inl TypeError"
| "py_setitem (JBool b) k v = Inl TypeError"
| "py_setitem (JNum n) k v = Inl TypeError"
| "py_setitem (JStr s) k v = Inl TypeError"
| "py_setitem (JArr xs) k v = Inl TypeError"

text \<open>\<^verbatim>\<open>len(v)\<close>.\<close>

fun py_len :: "jval \<Rightarrow> error + int" where
  "py_len (JArr xs) = Inr (int (length xs))"
| "py_len (JObj kvs) = Inr (int (length kvs))"
| "py_len (JStr s) = Inr (int (length s))"
| "py_len JNull = Inl TypeError"
| "py_len (JBool b) = Inl TypeError"
| "py_len (JNum n) = Inl TypeError"

text \<open>\<^verbatim>\<open>a + b\<close>: lists and strings concatenate, numbers add (a truth value counts as
  0 or 1), everything else is a \<^verbatim>\<open>TypeError\<close>.\<close>

fun py_add :: "jval \<Rightarrow> jval \<Rightarrow> error + jval" where
  "py_add (JArr xs) (JArr ys) = Inr (JArr (xs @ ys))"
| "py_add (JStr s) (JStr t) = Inr (JStr (s @ t))"
| "py_add (JNum m) (JNum n) = Inr (JNum (m + n))"
| "py_add (JNum m) (JBool b) = Inr (JNum (m + of_bool b))"
| "py_add (JBool a) (JNum n) = Inr (JNum (of_bool a + n))"
| "py_add (JBool a) (JBool b) = Inr (JNum (of_bool a + of_bool b))"
| "py_add _ _ = Inl TypeError"

subsection \<open>Version classes\<close>

text \<open>
  The attributes a concrete version class binds: its name (the identity of the class),
  \<open>major\<close>, \<open>minor\<close>, the \<open>json\<close> schema, the \<open>tree\<close> (a dictionary, kept as an
  association list in iteration order) and the two class methods the abstract class leaves
  open. \<open>get_version\<close> is \<^verbatim>\<open>_get_version\<close>: by its docstring it returns the major and the
  minor number of the data, or \<^verbatim>\<open>(None, None)\<close>, here \<open>None\<close>. \<open>inherit\<close> is
  \<^verbatim>\<open>_inherit\<close>; it may raise.
\<close>

record vdesc =
  cname :: string
  major :: int
  minor :: int
  json :: jval
  tree :: "(string \<times> string list) list"
  get_version :: "jval \<Rightarrow> (int \<times> int) option"
  inherit :: "jval \<Rightarrow> error + jval"

text \<open>
  A concrete version class is its own attributes and its base class; the first version,
  the direct child of the abstract class, has no previous version. The selector
  \<open>previous\<close> is the property of that name. Two classes are the same class when they agree
  in name, attributes and base. The abstract class itself is no value of the type: the
  methods are modelled as called on the versions of a lineage.
\<close>

datatype version = Class (own: vdesc) (previous: "version option")

text \<open>The collaborators outside the module: the flag \<^verbatim>\<open>LIGHT_ASSERTS\<close> of
  \<^verbatim>\<open>kcidb_io.misc\<close> and \<^verbatim>\<open>jsonschema.validate\<close> (instance, then schema), which
  passes (\<open>None\<close>) or raises a validation error with its diagnostic.\<close>

record env =
  LIGHT_ASSERTS :: bool
  jsonschema_validate :: "jval \<Rightarrow> jval \<Rightarrow> string option"

section \<open>The metaclass\<close>

text \<open>The generator \<^verbatim>\<open>lineage\<close>: this class, then its base, down to the first version.\<close>

fun lineage :: "version \<Rightarrow> version list" where
  "lineage (Class a None) = [Class a None]"
| "lineage (Class a (Some b)) = Class a (Some b) # lineage b"

text \<open>\<^verbatim>\<open>issubclass(cls, other)\<close> between concrete version classes: \<open>other\<close> is \<open>cls\<close>
  or one of its bases.\<close>

definition issubclass :: "version \<Rightarrow> version \<Rightarrow> bool" where
  "issubclass cls other = (other \<in> set (lineage cls))"

definition MetaVersion_le :: "version \<Rightarrow> version \<Rightarrow> error + bool" where
  "MetaVersion_le cls other =
     (if \<not> issubclass cls other \<and> \<not> issubclass other cls then Inl NotImplementedError
      else Inr (issubclass other cls))"

definition MetaVersion_ge :: "version \<Rightarrow> version \<Rightarrow> error + bool" where
  "MetaVersion_ge cls other =
     (if \<not> issubclass cls other \<and> \<not> issubclass other cls then Inl NotImplementedError
      else Inr (issubclass cls other))"

definition MetaVersion_lt :: "version \<Rightarrow> version \<Rightarrow> error + bool" where
  "MetaVersion_lt cls other =
     (if \<not> issubclass cls other \<and> \<not> issubclass other cls then Inl NotImplementedError
      else Inr (issubclass other cls \<and> cls \<noteq> other))"

definition MetaVersion_gt :: "version \<Rightarrow> version \<Rightarrow> error + bool" where
  "MetaVersion_gt cls other =
     (if \<not> issubclass cls other \<and> \<not> issubclass other cls then Inl NotImplementedError
      else Inr (issubclass cls other \<and> cls \<noteq> other))"

section \<open>Classification and validation\<close>

definition is_compatible_exactly :: "version \<Rightarrow> jval \<Rightarrow> bool" where
  "is_compatible_exactly cls data =
     (case get_version (own cls) data of
        None \<Rightarrow> False
      | Some (mj, mn) \<Rightarrow> mj = major (own cls) \<and> mn \<le> minor (own cls))"

definition get_exactly_compatible :: "version \<Rightarrow> jval \<Rightarrow> version option" where
  "get_exactly_compatible cls data =
     find (\<lambda>version. is_compatible_exactly version data) (lineage cls)"

definition is_compatible :: "version \<Rightarrow> jval \<Rightarrow> bool" where
  "is_compatible cls data = (get_exactly_compatible cls data \<noteq> None)"

definition validate_exactly :: "env \<Rightarrow> version \<Rightarrow> jval \<Rightarrow> error + jval" where
  "validate_exactly env cls data =
     (case jsonschema_validate env data (json (own cls)) of
        Some e \<Rightarrow> Inl (ValidationError e)
      | None \<Rightarrow> Inr data)"

definition is_valid_exactly :: "env \<Rightarrow> version \<Rightarrow> jval \<Rightarrow> bool" where
  "is_valid_exactly env cls data =
     (case validate_exactly env cls data of Inl e \<Rightarrow> False | Inr d \<Rightarrow> True)"

definition validate :: "env \<Rightarrow> version \<Rightarrow> jval \<Rightarrow> error + jval" where
  "validate env cls data =
     (case get_exactly_compatible cls data of
        Some exactly_compatible \<Rightarrow> validate_exactly env exactly_compatible data
      | None \<Rightarrow> validate_exactly env cls data)"

definition is_valid :: "env \<Rightarrow> version \<Rightarrow> jval \<Rightarrow> bool" where
  "is_valid env cls data =
     (case validate env cls data of Inl e \<Rightarrow> False | Inr d \<Rightarrow> True)"

text \<open>The generator expression of \<^verbatim>\<open>count\<close>, summed from 0: the keys of the tree in
  order, the empty (root) key skipped, a key the data has not skipped.\<close>

fun count_sum :: "string list \<Rightarrow> jval \<Rightarrow> error + int" where
  "count_sum [] data = Inr 0"
| "count_sum (k # ks) data =
     (if k \<noteq> [] then
        (case py_in k data of
           Inl e \<Rightarrow> Inl e
         | Inr False \<Rightarrow> count_sum ks data
         | Inr True \<Rightarrow>
             (case py_getitem data k of
                Inl e \<Rightarrow> Inl e
              | Inr v \<Rightarrow>
                  (case py_len v of
                     Inl e \<Rightarrow> Inl e
                   | Inr n \<Rightarrow>
                       (case count_sum ks data of
                          Inl e \<Rightarrow> Inl e
                        | Inr m \<Rightarrow> Inr (n + m)))))
      else count_sum ks data)"

definition count :: "env \<Rightarrow> version \<Rightarrow> jval \<Rightarrow> error + int" where
  "count env cls data =
     (if \<not> (LIGHT_ASSERTS env \<or> is_valid env cls data) then Inl AssertionError
      else
        (case get_exactly_compatible cls data of
           None \<Rightarrow> Inl AttributeError
         | Some version \<Rightarrow> count_sum (map fst (tree (own version))) data))"

section \<open>Upgrade\<close>

text \<open>
  The first loop of \<^verbatim>\<open>upgrade\<close> over the lineage. \<open>None\<close> is the loop running to its
  end without \<^verbatim>\<open>break\<close> (the \<^verbatim>\<open>else\<close> branch); otherwise the assertion at the
  compatible version has failed, or the loop leaves the newer versions, oldest first.
\<close>

fun find_newer :: "env \<Rightarrow> version list \<Rightarrow> jval \<Rightarrow> version list \<Rightarrow> (error + version list) option" where
  "find_newer env [] data newer_versions = None"
| "find_newer env (version # rest) data newer_versions =
     (if is_compatible_exactly version data then
        (if LIGHT_ASSERTS env \<or> is_valid_exactly env version data then Some (Inr newer_versions)
         else Some (Inl AssertionError))
      else find_newer env rest data (version # newer_versions))"

text \<open>
  The second loop. Beside the data it threads the list of the versions whose
  \<^verbatim>\<open>_inherit\<close> has been called so far, in call order, so that the calls can be
  spoken about.
\<close>

fun inherit_loop :: "env \<Rightarrow> version list \<Rightarrow> jval \<Rightarrow> version list \<Rightarrow> version list \<times> (error + jval)" where
  "inherit_loop env [] data calls = (calls, Inr data)"
| "inherit_loop env (version # rest) data calls =
     (case inherit (own version) data of
        Inl e \<Rightarrow> (calls @ [version], Inl e)
      | Inr data' \<Rightarrow>
          (if LIGHT_ASSERTS env \<or> is_valid_exactly env version data'
           then inherit_loop env rest data' (calls @ [version])
           else (calls @ [version], Inl AssertionError)))"

definition upgrade :: "env \<Rightarrow> version \<Rightarrow> jval \<Rightarrow> bool \<Rightarrow> version list \<times> (error + jval)" where
  "upgrade env cls data0 copy =
     (let data = (if copy then deepcopy data0 else data0) in
      case find_newer env (lineage cls) data [] of
        None \<Rightarrow>
          (case validate_exactly env cls data of
             Inl e \<Rightarrow> ([], Inl e)
           | Inr d \<Rightarrow> ([], Inl AssertionError))
      | Some (Inl e) \<Rightarrow> ([], Inl e)
      | Some (Inr newer_versions) \<Rightarrow> inherit_loop env newer_versions data [])"

section \<open>Merge\<close>

text \<open>The inner loop of \<^verbatim>\<open>merge\<close> over the keys of the working version's tree.\<close>

fun merge_obj_lists :: "string list \<Rightarrow> jval \<Rightarrow> jval \<Rightarrow> error + jval" where
  "merge_obj_lists [] target source = Inr target"
| "merge_obj_lists (obj_list_name # names) target source =
     (case py_in obj_list_name source of
        Inl e \<Rightarrow> Inl e
      | Inr False \<Rightarrow> merge_obj_lists names target source
      | Inr True \<Rightarrow>
          (case py_get target obj_list_name (JArr []) of
             Inl e \<Rightarrow> Inl e
           | Inr old \<Rightarrow>
               (case py_getitem source obj_list_name of
                  Inl e \<Rightarrow> Inl e
                | Inr new \<Rightarrow>
                    (case py_add old new of
                       Inl e \<Rightarrow> Inl e
                     | Inr both \<Rightarrow>
                         (case py_setitem target obj_list_name both of
                            Inl e \<Rightarrow> Inl e
                          | Inr target' \<Rightarrow> merge_obj_lists names target' source)))))"

text \<open>
  \<^verbatim>\<open>merge\<close> is modelled as called with its default flags, \<^verbatim>\<open>copy_target\<close> and
  \<^verbatim>\<open>copy_sources\<close> both true: the target and every source are deep copies that share no
  object with each other or with the caller's datasets, so working on values is exact. With
  a flag off the method changes the caller's objects in place through \<^verbatim>\<open>_inherit\<close>, whose
  effect on the object it is given the module leaves open; that is outside the model.

  One round of the outer loop: the state is the working version and the target.
  \<^verbatim>\<open>issubclass\<close> raises a \<^verbatim>\<open>TypeError\<close> when either version is \<^verbatim>\<open>None\<close>.
\<close>

definition merge_source ::
  "env \<Rightarrow> version \<Rightarrow> version option \<times> jval \<Rightarrow> jval \<Rightarrow> error + version option \<times> jval" where
  "merge_source env cls state source0 =
     (if \<not> (LIGHT_ASSERTS env \<or> is_valid env cls source0) then Inl AssertionError
      else
        (let source = deepcopy source0 in
         case (get_exactly_compatible cls source, fst state) of
           (Some source_version, Some target_version) \<Rightarrow>
             (if issubclass source_version target_version then
                (case snd (upgrade env source_version (snd state) False) of
                   Inl e \<Rightarrow> Inl e
                 | Inr target \<Rightarrow>
                     (case merge_obj_lists (map fst (tree (own source_version))) target source of
                        Inl e \<Rightarrow> Inl e
                      | Inr target' \<Rightarrow> Inr (Some source_version, target')))
              else
                (case snd (upgrade env target_version source False) of
                   Inl e \<Rightarrow> Inl e
                 | Inr source' \<Rightarrow>
                     (case merge_obj_lists (map fst (tree (own target_version))) (snd state) source' of
                        Inl e \<Rightarrow> Inl e
                      | Inr target' \<Rightarrow> Inr (Some target_version, target'))))
         | (_, _) \<Rightarrow> Inl TypeError))"

fun merge_loop ::
  "env \<Rightarrow> version \<Rightarrow> version option \<times> jval \<Rightarrow> jval list \<Rightarrow> error + version option \<times> jval" where
  "merge_loop env cls state [] = Inr state"
| "merge_loop env cls state (source # sources) =
     (case merge_source env cls state source of
        Inl e \<Rightarrow> Inl e
      | Inr state' \<Rightarrow> merge_loop env cls state' sources)"

text \<open>\<open>merge_state\<close> is \<^verbatim>\<open>merge\<close> up to its last assertion, with the working version
  beside the target; \<open>merge\<close> is the whole method.\<close>

definition merge_state ::
  "env \<Rightarrow> version \<Rightarrow> jval \<Rightarrow> jval list \<Rightarrow> error + version option \<times> jval" where
  "merge_state env cls target0 sources =
     (if \<not> (LIGHT_ASSERTS env \<or> is_valid env cls target0) then Inl AssertionError
      else
        (let target = deepcopy target0 in
         merge_loop env cls (get_exactly_compatible cls target, target) sources))"

definition merge :: "env \<Rightarrow> version \<Rightarrow> jval \<Rightarrow> jval list \<Rightarrow> error + jval" where
  "merge env cls target0 sources =
     (case merge_state env cls target0 sources of
        Inl e \<Rightarrow> Inl e
      | Inr (target_version, target) \<Rightarrow>
          (if LIGHT_ASSERTS env then Inr target
           else
             (case target_version of
                None \<Rightarrow> Inl AttributeError
              | Some version \<Rightarrow>
                  (if is_valid_exactly env version target then Inr target
                   else Inl AssertionError))))"

section \<open>Notions of the specification\<close>

text \<open>\<open>ancestor A B\<close>: \<open>A\<close> is an ancestor of \<open>B\<close>, reached from \<open>B\<close> by one or more steps
  to the previous version.\<close>

fun ancestor :: "version \<Rightarrow> version \<Rightarrow> bool" where
  "ancestor A (Class b None) = False"
| "ancestor A (Class b (Some P)) = (A = P \<or> ancestor A P)"

text \<open>Data adheres to a schema version, is valid at it: its declared version is exactly
  compatible with the version and it passes the version's schema.\<close>

definition adheres :: "env \<Rightarrow> version \<Rightarrow> jval \<Rightarrow> bool" where
  "adheres env cls data = (is_compatible_exactly cls data \<and> is_valid_exactly env cls data)"

text \<open>The contract of a version's transform: it takes every dataset valid at the previous
  version to a dataset valid at the version itself, without raising. The first version has
  no previous version to take data from.\<close>

definition inherit_ok :: "env \<Rightarrow> version \<Rightarrow> bool" where
  "inherit_ok env cls =
     (case previous cls of
        None \<Rightarrow> True
      | Some base \<Rightarrow>
          (\<forall>data. adheres env base data \<longrightarrow>
             (case inherit (own cls) data of Inl e \<Rightarrow> False | Inr data' \<Rightarrow> adheres env cls data')))"

text \<open>The versions of the lineage of \<open>V2\<close> that come after \<open>V1\<close>, up to and including
  \<open>V2\<close>, oldest first.\<close>

fun versions_after :: "version \<Rightarrow> version \<Rightarrow> version list" where
  "versions_after V1 (Class a None) = (if Class a None = V1 then [] else [Class a None])"
| "versions_after V1 (Class a (Some b)) =
     (if Class a (Some b) = V1 then [] else versions_after V1 b @ [Class a (Some b)])"

text \<open>\<^verbatim>\<open>upgrade(V, upgrade(V, D))\<close>: an exception of the inner call leaves the outer one
  uncalled.\<close>

definition upgrade_twice :: "env \<Rightarrow> version \<Rightarrow> jval \<Rightarrow> error + jval" where
  "upgrade_twice env cls data =
     (case snd (upgrade env cls data True) of
        Inl e \<Rightarrow> Inl e
      | Inr data' \<Rightarrow> snd (upgrade env cls data' True))"

text \<open>A collection of a dataset: absent, or a list of records; and the records of a
  collection, none when it is absent.\<close>

definition is_obj_list :: "jval option \<Rightarrow> bool" where
  "is_obj_list v = (case v of None \<Rightarrow> True | Some (JArr xs) \<Rightarrow> True | Some _ \<Rightarrow> False)"

definition records :: "(string \<times> jval) list \<Rightarrow> string \<Rightarrow> jval list" where
  "records kvs k = (case map_of kvs k of Some (JArr xs) \<Rightarrow> xs | _ \<Rightarrow> [])"

text \<open>Data valid for a version or an ancestor: some version of the lineage is exactly
  compatible with it and \<^verbatim>\<open>is_valid\<close> holds, so it is valid at that version.\<close>

definition valid_for :: "env \<Rightarrow> version \<Rightarrow> jval \<Rightarrow> bool" where
  "valid_for env cls data = (is_compatible cls data \<and> is_valid env cls data)"

section \<open>An example lineage\<close>

text \<open>
  Three versions in one lineage, 1.1, 2.0 and 3.0, and a second child of the first one.
  The version of a dataset is read from its \<open>version\<close> object, each transform stamps its
  own version, and the example validator takes a schema to fix the major number and to want
  a list for every collection of the tree that is there, the empty schema accepting every
  document as JSON Schema has it. \<open>ex_lax\<close> is a first version with the empty schema,
  \<open>ex_rooted\<close> a dataset with a collection under the empty key.
\<close>

definition ver_doc :: "int \<Rightarrow> int \<Rightarrow> jval" where
  "ver_doc mj mn = JObj [(''major'', JNum mj), (''minor'', JNum mn)]"

fun ex_numbers :: "jval option \<Rightarrow> jval option \<Rightarrow> (int \<times> int) option" where
  "ex_numbers (Some (JNum mj)) (Some (JNum mn)) = Some (mj, mn)"
| "ex_numbers _ _ = None"

fun ex_get_version :: "jval \<Rightarrow> (int \<times> int) option" where
  "ex_get_version (JObj kvs) =
     (case map_of kvs ''version'' of
        Some (JObj ver) \<Rightarrow> ex_numbers (map_of ver ''major'') (map_of ver ''minor'')
      | _ \<Rightarrow> None)"
| "ex_get_version _ = None"

definition ex_inherit :: "int \<Rightarrow> int \<Rightarrow> jval \<Rightarrow> error + jval" where
  "ex_inherit mj mn data = py_setitem data ''version'' (ver_doc mj mn)"

definition ex_schema :: "int \<Rightarrow> jval" where
  "ex_schema mj = JObj [(''major'', JNum mj)]"

definition ex_tree :: "(string \<times> string list) list" where
  "ex_tree = [([], [''checkouts'']), (''checkouts'', [''builds'']), (''builds'', [])]"

fun ex_collections :: "jval \<Rightarrow> bool" where
  "ex_collections (JObj kvs) = list_all (\<lambda>k. is_obj_list (map_of kvs k)) (map fst ex_tree)"
| "ex_collections _ = False"

definition ex_validate :: "jval \<Rightarrow> jval \<Rightarrow> string option" where
  "ex_validate instance schema =
     (if schema = JObj [] then None
      else
        (case ex_get_version instance of
           None \<Rightarrow> Some ''version: required''
         | Some (mj, mn) \<Rightarrow>
             if schema \<noteq> ex_schema mj then Some ''version.major: wrong value''
             else if ex_collections instance then None
             else Some ''collection: not an array''))"

definition ex_env :: "bool \<Rightarrow> env" where
  "ex_env la = \<lparr>LIGHT_ASSERTS = la, jsonschema_validate = ex_validate\<rparr>"

definition ex_V1 :: version where
  "ex_V1 = Class \<lparr>cname = ''V1'', major = 1, minor = 1, json = ex_schema 1, tree = ex_tree,
     get_version = ex_get_version, inherit = Inr\<rparr> None"

definition ex_V2 :: version where
  "ex_V2 = Class \<lparr>cname = ''V2'', major = 2, minor = 0, json = ex_schema 2, tree = ex_tree,
     get_version = ex_get_version, inherit = ex_inherit 2 0\<rparr> (Some ex_V1)"

definition ex_V3 :: version where
  "ex_V3 = Class \<lparr>cname = ''V3'', major = 3, minor = 0, json = ex_schema 3, tree = ex_tree,
     get_version = ex_get_version, inherit = ex_inherit 3 0\<rparr> (Some ex_V2)"

definition ex_V2b :: version where
  "ex_V2b = Class \<lparr>cname = ''V2b'', major = 2, minor = 0, json = ex_schema 2, tree = ex_tree,
     get_version = ex_get_version, inherit = ex_inherit 2 0\<rparr> (Some ex_V1)"

definition ex_lax :: version where
  "ex_lax = Class \<lparr>cname = ''V1'', major = 1, minor = 0, json = JObj [], tree = ex_tree,
     get_version = ex_get_version, inherit = Inr\<rparr> None"

definition ex_data :: "int \<Rightarrow> int \<Rightarrow> jval" where
  "ex_data mj mn =
     JObj [(''version'', ver_doc mj mn), (''checkouts'', JArr [JObj [(''id'', JStr ''c1'')]])]"

definition ex_rooted :: jval where
  "ex_rooted = JObj [(''version'', ver_doc 1 0), ([], JArr [JStr ''x''])]"

lemmas ex_defs = is_obj_list_def ver_doc_def ex_inherit_def ex_schema_def ex_validate_def ex_tree_def ex_env_def
  ex_V1_def ex_V2_def ex_V3_def ex_V2b_def ex_lax_def ex_data_def

section \<open>The lineage\<close>

lemma lineage_hd: "\<exists>rest. lineage V = V # rest"
  by (induction V rule: lineage.induct) auto

lemma lineage_ne: "lineage V \<noteq> []"
  using lineage_hd[of V] by auto

lemma lineage_previous:
  "Suc i < length (lineage V) \<Longrightarrow> previous (lineage V ! i) = Some (lineage V ! Suc i)"
proof (induction V arbitrary: i rule: lineage.induct)
  case (1 a)
  then show ?case by simp
next
  case (2 a b)
  obtain rest where r: "lineage b = b # rest" using lineage_hd by blast
  show ?case
  proof (cases i)
    case 0
    then show ?thesis using r by simp
  next
    case (Suc j)
    then show ?thesis using 2 by simp
  qed
qed

lemma lineage_last: "previous (last (lineage V)) = None"
  by (induction V rule: lineage.induct) (simp_all add: lineage_ne)

lemma lineage_size: "W \<in> set (lineage V) \<Longrightarrow> size W \<le> size V"
  by (induction V rule: lineage.induct) auto

lemma lineage_distinct: "distinct (lineage V)"
proof (induction V rule: lineage.induct)
  case (1 a)
  then show ?case by simp
next
  case (2 a b)
  have "Class a (Some b) \<notin> set (lineage b)"
    using lineage_size[of "Class a (Some b)" b] by auto
  then show ?case using 2 by simp
qed

lemma issubclass_self: "issubclass V V"
  using lineage_hd[of V] by (auto simp: issubclass_def)

lemma issubclass_iff_ancestor: "issubclass B A \<longleftrightarrow> (A = B \<or> ancestor A B)"
  by (induction B rule: lineage.induct) (auto simp: issubclass_def)

lemma ancestor_size: "ancestor A B \<Longrightarrow> size A < size B"
  by (induction B rule: lineage.induct) auto

lemma ancestor_neq: "ancestor A B \<Longrightarrow> A \<noteq> B"
  using ancestor_size by blast

lemma ancestor_asym: "ancestor A B \<Longrightarrow> \<not> ancestor B A"
  using ancestor_size[of A B] ancestor_size[of B A] by auto

text \<open>
  Claim C9. \<open>A \<le> B\<close> holds exactly when \<open>A\<close> is an ancestor of \<open>B\<close> or \<open>B\<close> itself. For two
  versions related in either direction the four comparisons return the truth values of
  the lineage order; for two versions with no ancestor relationship in either direction
  each of them raises \<^verbatim>\<open>NotImplementedError\<close> instead of returning a truth value.
\<close>

theorem version_order:
  "(MetaVersion_le A B = Inr True \<longleftrightarrow> ancestor A B \<or> A = B)
   \<and> (ancestor A B \<or> A = B \<or> ancestor B A \<longrightarrow>
        MetaVersion_le A B = Inr (ancestor A B \<or> A = B)
        \<and> MetaVersion_ge A B = Inr (ancestor B A \<or> A = B)
        \<and> MetaVersion_lt A B = Inr (ancestor A B)
        \<and> MetaVersion_gt A B = Inr (ancestor B A))
   \<and> (\<not> (ancestor A B \<or> A = B \<or> ancestor B A) \<longrightarrow>
        MetaVersion_le A B = Inl NotImplementedError
        \<and> MetaVersion_ge A B = Inl NotImplementedError
        \<and> MetaVersion_lt A B = Inl NotImplementedError
        \<and> MetaVersion_gt A B = Inl NotImplementedError)"
  using ancestor_neq[of A B] ancestor_neq[of B A] ancestor_asym[of A B]
  by (auto simp: MetaVersion_le_def MetaVersion_ge_def MetaVersion_lt_def MetaVersion_gt_def
      issubclass_iff_ancestor)

theorem version_order_witness:
  "ancestor ex_V1 ex_V3
   \<and> MetaVersion_le ex_V1 ex_V3 = Inr True \<and> MetaVersion_ge ex_V1 ex_V3 = Inr False
   \<and> MetaVersion_lt ex_V1 ex_V3 = Inr True \<and> MetaVersion_gt ex_V1 ex_V3 = Inr False
   \<and> \<not> (ancestor ex_V2 ex_V2b \<or> ex_V2 = ex_V2b \<or> ancestor ex_V2b ex_V2)
   \<and> MetaVersion_le ex_V2 ex_V2b = Inl NotImplementedError
   \<and> MetaVersion_gt ex_V2 ex_V2b = Inl NotImplementedError"
proof -
  have a: "ancestor ex_V1 ex_V3" "\<not> ancestor ex_V3 ex_V1" "ex_V1 \<noteq> ex_V3"
    by (simp_all add: ex_defs)
  have b: "\<not> (ancestor ex_V2 ex_V2b \<or> ex_V2 = ex_V2b \<or> ancestor ex_V2b ex_V2)"
    by (simp add: ex_defs)
  show ?thesis
    using a b version_order[of ex_V1 ex_V3] version_order[of ex_V2 ex_V2b] by simp
qed

section \<open>Classification\<close>

text \<open>
  Claim C3. \<^verbatim>\<open>is_compatible_exactly\<close> is true exactly when the data declares a major
  number equal to the version's and a minor number not above the version's; so data
  declaring a strictly lower minor number in the same major generation is accepted.
\<close>

theorem is_compatible_exactly_iff:
  "(is_compatible_exactly V D \<longleftrightarrow>
      (\<exists>mj mn. get_version (own V) D = Some (mj, mn) \<and> mj = major (own V) \<and> mn \<le> minor (own V)))
   \<and> (\<forall>mn. get_version (own V) D = Some (major (own V), mn) \<and> mn < minor (own V)
         \<longrightarrow> is_compatible_exactly V D)"
  by (auto simp: is_compatible_exactly_def split: option.splits)

theorem is_compatible_exactly_iff_witness:
  "get_version (own ex_V1) (ex_data 1 0) = Some (major (own ex_V1), 0)
   \<and> 0 < minor (own ex_V1) \<and> is_compatible_exactly ex_V1 (ex_data 1 0)"
proof -
  have h: "get_version (own ex_V1) (ex_data 1 0) = Some (major (own ex_V1), 0) \<and> 0 < minor (own ex_V1)"
    by (simp add: ex_defs)
  then show ?thesis
    using is_compatible_exactly_iff[of ex_V1 "ex_data 1 0"] by blast
qed

text \<open>
  Claim C4. \<^verbatim>\<open>get_exactly_compatible\<close> returns the first version of the lineage, read
  from the newest to the oldest, that is exactly compatible with the data, and none when
  no version of the lineage is, which is the case when no version finds a declared version
  in the data. The lineage starts at the version itself, each next entry is the previous
  version of the one before, and the last entry has no previous version.
\<close>

theorem get_exactly_compatible_first:
  "(get_exactly_compatible V D = Some W \<longleftrightarrow>
      (\<exists>i<length (lineage V). lineage V ! i = W \<and> is_compatible_exactly W D \<and>
         (\<forall>j<i. \<not> is_compatible_exactly (lineage V ! j) D)))
   \<and> (get_exactly_compatible V D = None \<longleftrightarrow>
        list_all (\<lambda>W. \<not> is_compatible_exactly W D) (lineage V))
   \<and> (list_all (\<lambda>W. get_version (own W) D = None) (lineage V) \<longrightarrow>
        get_exactly_compatible V D = None)
   \<and> lineage V ! 0 = V
   \<and> (\<forall>i. Suc i < length (lineage V) \<longrightarrow> previous (lineage V ! i) = Some (lineage V ! Suc i))
   \<and> previous (last (lineage V)) = None"
proof -
  have a: "get_exactly_compatible V D = Some W \<longleftrightarrow>
      (\<exists>i<length (lineage V). lineage V ! i = W \<and> is_compatible_exactly W D \<and>
         (\<forall>j<i. \<not> is_compatible_exactly (lineage V ! j) D))"
    unfolding get_exactly_compatible_def find_Some_iff by auto
  have b: "get_exactly_compatible V D = None \<longleftrightarrow>
        list_all (\<lambda>W. \<not> is_compatible_exactly W D) (lineage V)"
    unfolding get_exactly_compatible_def find_None_iff list_all_iff by auto
  have c: "list_all (\<lambda>W. get_version (own W) D = None) (lineage V) \<longrightarrow>
        get_exactly_compatible V D = None"
    unfolding b by (auto simp: list_all_iff is_compatible_exactly_def)
  have d: "lineage V ! 0 = V"
    using lineage_hd[of V] by auto
  show ?thesis
    using a b c d lineage_previous lineage_last by blast
qed

theorem get_exactly_compatible_first_witness:
  "list_all (\<lambda>W. get_version (own W) (JObj []) = None) (lineage ex_V3)
   \<and> get_exactly_compatible ex_V3 (JObj []) = None
   \<and> lineage ex_V3 = [ex_V3, ex_V2, ex_V1]
   \<and> is_compatible_exactly ex_V1 (ex_data 1 0)
   \<and> \<not> is_compatible_exactly ex_V3 (ex_data 1 0)
   \<and> \<not> is_compatible_exactly ex_V2 (ex_data 1 0)
   \<and> get_exactly_compatible ex_V3 (ex_data 1 0) = Some ex_V1"
proof -
  have h: "list_all (\<lambda>W. get_version (own W) (JObj []) = None) (lineage ex_V3)"
    by (simp add: ex_defs)
  have l: "lineage ex_V3 = [ex_V3, ex_V2, ex_V1]"
    by (simp add: ex_defs)
  have c: "is_compatible_exactly ex_V1 (ex_data 1 0)"
    "\<not> is_compatible_exactly ex_V3 (ex_data 1 0)"
    "\<not> is_compatible_exactly ex_V2 (ex_data 1 0)"
    by (simp_all add: is_compatible_exactly_def ex_defs)
  have "\<exists>i<length (lineage ex_V3). lineage ex_V3 ! i = ex_V1 \<and>
      is_compatible_exactly ex_V1 (ex_data 1 0) \<and>
      (\<forall>j<i. \<not> is_compatible_exactly (lineage ex_V3 ! j) (ex_data 1 0))"
    unfolding l using c by (intro exI[of _ 2]) (simp add: less_Suc_eq numeral_2_eq_2)
  then show ?thesis
    using h l c get_exactly_compatible_first[of ex_V3 "JObj []" ex_V1]
      get_exactly_compatible_first[of ex_V3 "ex_data 1 0" ex_V1]
    by blast
qed

text \<open>
  Claim C6. \<^verbatim>\<open>validate\<close> resolves the exactly compatible version and runs the validator
  on the data and that version's schema; when no version resolves, as for data whose
  version cannot be read, it runs the validator on the data and the schema of the caller's
  own version. In either case the outcome is the validator's verdict on that schema: its
  diagnostic as a validation error, or the data; no other error is raised.
\<close>

theorem validate_resolves:
  "(get_exactly_compatible V D = Some W \<longrightarrow>
      validate env V D = validate_exactly env W D
      \<and> validate env V D =
          (case jsonschema_validate env D (json (own W)) of
             Some msg \<Rightarrow> Inl (ValidationError msg)
           | None \<Rightarrow> Inr D))
   \<and> (get_exactly_compatible V D = None \<longrightarrow>
      validate env V D = validate_exactly env V D
      \<and> validate env V D =
          (case jsonschema_validate env D (json (own V)) of
             Some msg \<Rightarrow> Inl (ValidationError msg)
           | None \<Rightarrow> Inr D))
   \<and> (list_all (\<lambda>W. get_version (own W) D = None) (lineage V) \<longrightarrow>
        validate env V D =
          (case jsonschema_validate env D (json (own V)) of
             Some msg \<Rightarrow> Inl (ValidationError msg)
           | None \<Rightarrow> Inr D))"
proof -
  have "list_all (\<lambda>W. get_version (own W) D = None) (lineage V) \<Longrightarrow>
      get_exactly_compatible V D = None"
    unfolding get_exactly_compatible_def find_None_iff
    by (auto simp: list_all_iff is_compatible_exactly_def)
  then show ?thesis
    by (auto simp: validate_def validate_exactly_def)
qed

theorem validate_resolves_witness:
  "list_all (\<lambda>W. get_version (own W) (JObj []) = None) (lineage ex_V3)
   \<and> get_exactly_compatible ex_V3 (JObj []) = None
   \<and> validate (ex_env True) ex_V3 (JObj []) = Inl (ValidationError ''version: required'')
   \<and> get_exactly_compatible ex_V3 (ex_data 1 0) = Some ex_V1
   \<and> jsonschema_validate (ex_env True) (ex_data 1 0) (json (own ex_V1)) = None
   \<and> validate (ex_env True) ex_V3 (ex_data 1 0) = Inr (ex_data 1 0)
   \<and> get_exactly_compatible ex_V3 (JObj [(''version'', ver_doc 1 0), (''checkouts'', JNum 5)])
       = Some ex_V1
   \<and> validate (ex_env True) ex_V3 (JObj [(''version'', ver_doc 1 0), (''checkouts'', JNum 5)])
       = Inl (ValidationError ''collection: not an array'')"
proof -
  let ?bad = "JObj [(''version'', ver_doc 1 0), (''checkouts'', JNum 5)]"
  have h: "list_all (\<lambda>W. get_version (own W) (JObj []) = None) (lineage ex_V3)"
    by (simp add: ex_defs)
  have n: "get_exactly_compatible ex_V3 (JObj []) = None"
    by (simp add: get_exactly_compatible_def is_compatible_exactly_def ex_defs)
  have v: "jsonschema_validate (ex_env True) (JObj []) (json (own ex_V3)) = Some ''version: required''"
    by (simp add: ex_defs)
  have g: "get_exactly_compatible ex_V3 (ex_data 1 0) = Some ex_V1"
    by (simp add: get_exactly_compatible_def is_compatible_exactly_def ex_defs)
  have p: "jsonschema_validate (ex_env True) (ex_data 1 0) (json (own ex_V1)) = None"
    by (simp add: ex_defs)
  have gb: "get_exactly_compatible ex_V3 ?bad = Some ex_V1"
    by (simp add: get_exactly_compatible_def is_compatible_exactly_def ex_defs)
  have b: "jsonschema_validate (ex_env True) ?bad (json (own ex_V1))
      = Some ''collection: not an array''"
    by (simp add: ex_defs)
  have "validate (ex_env True) ex_V3 (JObj []) =
      (case jsonschema_validate (ex_env True) (JObj []) (json (own ex_V3)) of
         Some msg \<Rightarrow> Inl (ValidationError msg)
       | None \<Rightarrow> Inr (JObj []))"
    using h validate_resolves[of ex_V3 "JObj []" ex_V1 "ex_env True"] by blast
  then have r1: "validate (ex_env True) ex_V3 (JObj []) = Inl (ValidationError ''version: required'')"
    by (simp add: v)
  have "validate (ex_env True) ex_V3 (ex_data 1 0) =
      (case jsonschema_validate (ex_env True) (ex_data 1 0) (json (own ex_V1)) of
         Some msg \<Rightarrow> Inl (ValidationError msg)
       | None \<Rightarrow> Inr (ex_data 1 0))"
    using g validate_resolves[of ex_V3 "ex_data 1 0" ex_V1 "ex_env True"] by blast
  then have r2: "validate (ex_env True) ex_V3 (ex_data 1 0) = Inr (ex_data 1 0)"
    by (simp add: p)
  have "validate (ex_env True) ex_V3 ?bad =
      (case jsonschema_validate (ex_env True) ?bad (json (own ex_V1)) of
         Some msg \<Rightarrow> Inl (ValidationError msg)
       | None \<Rightarrow> Inr ?bad)"
    using gb validate_resolves[of ex_V3 ?bad ex_V1 "ex_env True"] by blast
  then have r3: "validate (ex_env True) ex_V3 ?bad = Inl (ValidationError ''collection: not an array'')"
    by (simp add: b)
  show ?thesis
    using h n g p gb r1 r2 r3 by blast
qed

section \<open>Counting\<close>

lemma count_sum_obj:
  "list_all (\<lambda>k. k = [] \<or> is_obj_list (map_of kvs k)) ks \<Longrightarrow>
   count_sum ks (JObj kvs) =
     Inr (\<Sum>k\<leftarrow>filter (\<lambda>k. k \<noteq> [] \<and> k \<in> set (map fst kvs)) ks. int (length (records kvs k)))"
proof (induction ks)
  case Nil
  then show ?case by simp
next
  case (Cons k ks)
  then have ih: "count_sum ks (JObj kvs) =
     Inr (\<Sum>k\<leftarrow>filter (\<lambda>k. k \<noteq> [] \<and> k \<in> set (map fst kvs)) ks. int (length (records kvs k)))"
    by simp
  show ?case
  proof (cases "k \<noteq> [] \<and> k \<in> set (map fst kvs)")
    case False
    then show ?thesis using ih by auto
  next
    case True
    then obtain v where v: "map_of kvs k = Some v"
      by (metis map_of_eq_None_iff not_Some_eq set_map)
    then obtain xs where xs: "v = JArr xs"
      using Cons.prems True by (cases v) (auto simp: is_obj_list_def)
    show ?thesis
      using True v xs ih by (simp add: records_def)
  qed
qed

text \<open>
  Claim C10. With no exactly compatible version in the lineage, \<^verbatim>\<open>count\<close> returns no
  number: the attribute access on \<^verbatim>\<open>None\<close> raises, or the validity assertion fires
  before it. With an exactly compatible version, the assertion passing and the collections
  of the dataset being lists, it returns the sum of the lengths of the collections that the
  version's tree names, the root key left out, and that the dataset has.
\<close>

theorem count_partial:
  "(get_exactly_compatible V D = None \<longrightarrow>
      count env V D =
        (if LIGHT_ASSERTS env \<or> is_valid env V D then Inl AttributeError else Inl AssertionError))
   \<and> (get_exactly_compatible V (JObj kvs) = Some W
        \<and> (LIGHT_ASSERTS env \<or> is_valid env V (JObj kvs))
        \<and> list_all (\<lambda>k. k = [] \<or> is_obj_list (map_of kvs k)) (map fst (tree (own W))) \<longrightarrow>
      count env V (JObj kvs) =
        Inr (\<Sum>k\<leftarrow>filter (\<lambda>k. k \<noteq> [] \<and> k \<in> set (map fst kvs)) (map fst (tree (own W))).
               int (length (records kvs k))))"
  using count_sum_obj[of kvs "map fst (tree (own W))"]
  by (simp add: count_def)

theorem count_partial_witness:
  "get_exactly_compatible ex_V3 (JObj []) = None
   \<and> count (ex_env True) ex_V3 (JObj []) = Inl AttributeError
   \<and> count (ex_env False) ex_V3 (JObj []) = Inl AssertionError
   \<and> get_exactly_compatible ex_V3 (ex_data 1 0) = Some ex_V1
   \<and> is_valid (ex_env False) ex_V3 (ex_data 1 0)
   \<and> list_all
        (\<lambda>k. k = [] \<or> is_obj_list
           (map_of [(''version'', ver_doc 1 0), (''checkouts'', JArr [JObj [(''id'', JStr ''c1'')]])] k))
        (map fst (tree (own ex_V1)))
   \<and> count (ex_env False) ex_V3 (ex_data 1 0) = Inr 1"
proof -
  have n: "get_exactly_compatible ex_V3 (JObj []) = None"
    by (simp add: get_exactly_compatible_def is_compatible_exactly_def ex_defs)
  have i: "\<not> is_valid (ex_env False) ex_V3 (JObj [])"
    by (simp add: is_valid_def validate_def validate_exactly_def n) (simp add: ex_defs)
  have g: "get_exactly_compatible ex_V3 (ex_data 1 0) = Some ex_V1"
    by (simp add: get_exactly_compatible_def is_compatible_exactly_def ex_defs)
  have v: "is_valid (ex_env False) ex_V3 (ex_data 1 0)"
    by (simp add: is_valid_def validate_def validate_exactly_def g) (simp add: ex_defs)
  have d: "ex_data 1 0 =
      JObj [(''version'', ver_doc 1 0), (''checkouts'', JArr [JObj [(''id'', JStr ''c1'')]])]"
    by (simp add: ex_data_def)
  have l: "list_all
      (\<lambda>k. k = [] \<or> is_obj_list
         (map_of [(''version'', ver_doc 1 0), (''checkouts'', JArr [JObj [(''id'', JStr ''c1'')]])] k))
      (map fst (tree (own ex_V1)))"
    by (simp add: is_obj_list_def ex_V1_def ex_tree_def)
  have s: "(\<Sum>k\<leftarrow>filter (\<lambda>k. k \<noteq> [] \<and> k \<in> set (map fst
         [(''version'', ver_doc 1 0), (''checkouts'', JArr [JObj [(''id'', JStr ''c1'')]])]))
         (map fst (tree (own ex_V1))).
       int (length (records
         [(''version'', ver_doc 1 0), (''checkouts'', JArr [JObj [(''id'', JStr ''c1'')]])] k))) = 1"
    by (simp add: records_def ex_V1_def ex_tree_def)
  show ?thesis
    using n i g v l s
      count_partial[of ex_V3 "JObj []" "ex_env True"]
      count_partial[of ex_V3 "JObj []" "ex_env False"]
      count_partial[of ex_V3 _ "ex_env False"
        "[(''version'', ver_doc 1 0), (''checkouts'', JArr [JObj [(''id'', JStr ''c1'')]])]" ex_V1]
    unfolding d[symmetric]
    by (simp add: ex_env_def)
qed

section \<open>Upgrade\<close>

lemma find_newer_anchor:
  "find (\<lambda>W. is_compatible_exactly W D) (lineage V2) = Some V1 \<Longrightarrow>
   find_newer env (lineage V2) D acc =
     (if LIGHT_ASSERTS env \<or> is_valid_exactly env V1 D
      then Some (Inr (versions_after V1 V2 @ acc)) else Some (Inl AssertionError))"
proof (induction V2 arbitrary: acc rule: lineage.induct)
  case (1 a)
  then show ?case by (auto split: if_splits)
next
  case (2 a b)
  show ?case
  proof (cases "is_compatible_exactly (Class a (Some b)) D")
    case True
    then show ?thesis using 2 by auto
  next
    case False
    then have f: "find (\<lambda>W. is_compatible_exactly W D) (lineage b) = Some V1"
      using 2 by simp
    then have "is_compatible_exactly V1 D"
      by (auto simp: find_Some_iff)
    then have "Class a (Some b) \<noteq> V1"
      using False by auto
    then show ?thesis
      using False 2(1)[OF f] by simp
  qed
qed

lemma inherit_loop_append:
  "inherit_loop env (xs @ ys) d calls =
     (case inherit_loop env xs d calls of
        (c, Inl e) \<Rightarrow> (c, Inl e)
      | (c, Inr d') \<Rightarrow> inherit_loop env ys d' c)"
  by (induction xs arbitrary: d calls) (auto split: sum.splits)

lemma inherit_loop_chain:
  "V1 \<in> set (lineage V2) \<Longrightarrow> adheres env V1 D1 \<Longrightarrow>
   list_all (inherit_ok env) (versions_after V1 V2) \<Longrightarrow>
   \<exists>D2. inherit_loop env (versions_after V1 V2) D1 calls = (calls @ versions_after V1 V2, Inr D2)
        \<and> adheres env V2 D2"
proof (induction V2 rule: lineage.induct)
  case (1 a)
  then show ?case by auto
next
  case (2 a b)
  show ?case
  proof (cases "Class a (Some b) = V1")
    case True
    then show ?thesis using 2 by auto
  next
    case False
    then have "V1 \<in> set (lineage b)" using 2 by auto
    moreover have "list_all (inherit_ok env) (versions_after V1 b)"
      and ok: "inherit_ok env (Class a (Some b))"
      using False 2 by auto
    ultimately obtain Db where
      Db: "inherit_loop env (versions_after V1 b) D1 calls = (calls @ versions_after V1 b, Inr Db)"
      "adheres env b Db"
      using 2 by blast
    obtain D2 where D2: "inherit a Db = Inr D2" "adheres env (Class a (Some b)) D2"
      using ok Db(2) by (cases "inherit a Db") (auto simp: inherit_ok_def)
    show ?thesis
      using False Db D2 by (auto simp: inherit_loop_append adheres_def)
  qed
qed

lemma upgrade_anchor:
  assumes "get_exactly_compatible V2 D1 = Some V1"
    and "is_valid_exactly env V1 D1"
    and "list_all (inherit_ok env) (versions_after V1 V2)"
  shows "\<exists>D2. upgrade env V2 D1 copy = (versions_after V1 V2, Inr D2) \<and> adheres env V2 D2"
proof -
  have f: "find (\<lambda>W. is_compatible_exactly W D1) (lineage V2) = Some V1"
    using assms(1) by (simp add: get_exactly_compatible_def)
  then have m: "V1 \<in> set (lineage V2)" and c: "is_compatible_exactly V1 D1"
    by (auto simp: find_Some_iff)
  have a: "adheres env V1 D1"
    using c assms(2) by (simp add: adheres_def)
  obtain D2 where "inherit_loop env (versions_after V1 V2) D1 [] = ([] @ versions_after V1 V2, Inr D2)"
    "adheres env V2 D2"
    using inherit_loop_chain[OF m a assms(3)] by blast
  then show ?thesis
    using find_newer_anchor[OF f, of env "[]"] assms(2)
    by (auto simp: upgrade_def deepcopy_def)
qed

lemma upgrade_noop:
  "is_compatible_exactly V D \<Longrightarrow> LIGHT_ASSERTS env \<or> is_valid_exactly env V D \<Longrightarrow>
   upgrade env V D copy = ([], Inr D)"
  using lineage_hd[of V] by (auto simp: upgrade_def deepcopy_def)

lemma versions_after_self: "versions_after V V = []"
  by (cases V rule: lineage.cases) auto

lemma versions_after_lineage:
  "V1 \<in> set (lineage V2) \<Longrightarrow> lineage V2 = rev (versions_after V1 V2) @ lineage V1"
proof (induction V2 rule: lineage.induct)
  case (1 a)
  then show ?case by auto
next
  case (2 a b)
  show ?case
  proof (cases "Class a (Some b) = V1")
    case True
    then show ?thesis by auto
  next
    case False
    then show ?thesis using 2 by auto
  qed
qed

subsection \<open>The example transforms keep their contract\<close>

lemma map_of_setitem: "map_of (setitem k v kvs) = (map_of kvs)(k \<mapsto> v)"
  by (induction kvs) auto

lemma ex_get_version_obj: "ex_get_version d = Some x \<Longrightarrow> \<exists>kvs. d = JObj kvs"
  by (cases d) auto

lemma ex_get_version_stamp:
  "ex_get_version (JObj (setitem ''version'' (ver_doc mj mn) kvs)) = Some (mj, mn)"
  by (simp add: map_of_setitem ver_doc_def)

lemma ex_compatible_obj:
  "get_version (own V) = ex_get_version \<Longrightarrow> is_compatible_exactly V d \<Longrightarrow> \<exists>kvs. d = JObj kvs"
  by (auto simp: is_compatible_exactly_def split: option.splits dest: ex_get_version_obj)

lemma ex_valid_collections:
  "is_valid_exactly (ex_env la) V d \<Longrightarrow> json (own V) = ex_schema m \<Longrightarrow> ex_collections d"
  by (auto simp: is_valid_exactly_def validate_exactly_def ex_env_def ex_validate_def ex_schema_def
      split: option.splits if_splits)

lemma ex_valid_exactly:
  "ex_get_version d = Some (m, mn) \<Longrightarrow> ex_collections d \<Longrightarrow> json (own V) = ex_schema m \<Longrightarrow>
   is_valid_exactly (ex_env la) V d"
  by (simp add: is_valid_exactly_def validate_exactly_def ex_env_def ex_validate_def)

lemma ex_inherit_ok:
  assumes "previous V = Some B"
    and "get_version (own B) = ex_get_version"
    and "json (own B) = ex_schema (major (own B))"
    and "get_version (own V) = ex_get_version"
    and "inherit (own V) = ex_inherit (major (own V)) (minor (own V))"
    and "json (own V) = ex_schema (major (own V))"
  shows "inherit_ok (ex_env la) V"
proof -
  have "\<exists>d'. inherit (own V) d = Inr d' \<and> adheres (ex_env la) V d'"
    if h: "adheres (ex_env la) B d" for d
  proof -
    obtain kvs where d: "d = JObj kvs"
      using h ex_compatible_obj[OF assms(2), of d] by (auto simp: adheres_def)
    let ?d' = "JObj (setitem ''version'' (ver_doc (major (own V)) (minor (own V))) kvs)"
    have i: "inherit (own V) d = Inr ?d'"
      by (simp add: d assms(5) ex_inherit_def)
    have "ex_collections d"
      using h ex_valid_collections[OF _ assms(3)] by (auto simp: adheres_def)
    then have c: "ex_collections ?d'"
      by (simp add: d map_of_setitem ex_tree_def)
    have g: "ex_get_version ?d' = Some (major (own V), minor (own V))"
      by (rule ex_get_version_stamp)
    have "adheres (ex_env la) V ?d'"
      using g ex_valid_exactly[OF g c assms(6)]
      by (simp add: adheres_def is_compatible_exactly_def assms(4))
    then show ?thesis using i by simp
  qed
  then show ?thesis
    using assms(1) by (fastforce simp: inherit_ok_def split: sum.splits)
qed

lemma ex_inherit_ok_V2: "inherit_ok (ex_env la) ex_V2"
  by (rule ex_inherit_ok[of _ ex_V1]) (simp_all add: ex_V1_def ex_V2_def)

lemma ex_inherit_ok_V3: "inherit_ok (ex_env la) ex_V3"
  by (rule ex_inherit_ok[of _ ex_V2]) (simp_all add: ex_V2_def ex_V3_def)

subsection \<open>The claims on upgrade\<close>

text \<open>
  Claim C1. Let \<open>V2 > V1\<close>, let \<open>V1\<close> be the anchor of \<open>D1\<close> in the lineage of \<open>V2\<close> and
  \<open>D1\<close> be valid at \<open>V1\<close>, and let the transforms of the versions after \<open>V1\<close> keep their
  contract. Then \<^verbatim>\<open>upgrade\<close> returns a dataset valid at \<open>V2\<close>, and the transforms it
  calls are those of the versions after \<open>V1\<close> up to \<open>V2\<close>, oldest first: reversed and put
  before the lineage of \<open>V1\<close> they are the lineage of \<open>V2\<close>, so none is skipped, and none
  occurs twice.
\<close>

theorem upgrade_from_older:
  assumes "MetaVersion_gt V2 V1 = Inr True"
    and "get_exactly_compatible V2 D1 = Some V1"
    and "is_valid_exactly env V1 D1"
    and "list_all (inherit_ok env) (versions_after V1 V2)"
  shows "\<exists>D2. upgrade env V2 D1 copy = (versions_after V1 V2, Inr D2)
           \<and> adheres env V2 D2
           \<and> lineage V2 = rev (versions_after V1 V2) @ lineage V1
           \<and> versions_after V1 V2 \<noteq> []
           \<and> distinct (versions_after V1 V2)"
proof -
  have m: "V1 \<in> set (lineage V2)"
    using assms(2) by (auto simp: get_exactly_compatible_def find_Some_iff)
  have l: "lineage V2 = rev (versions_after V1 V2) @ lineage V1"
    using versions_after_lineage[OF m] .
  have "V2 \<noteq> V1"
    using assms(1) by (auto simp: MetaVersion_gt_def split: if_splits)
  then have n: "versions_after V1 V2 \<noteq> []"
    using l lineage_hd[of V1] lineage_hd[of V2] by auto
  have d: "distinct (versions_after V1 V2)"
    using lineage_distinct[of V2] unfolding l by simp
  show ?thesis
    using upgrade_anchor[OF assms(2) assms(3) assms(4), of copy] l n d by blast
qed

theorem upgrade_from_older_witness:
  "MetaVersion_gt ex_V3 ex_V1 = Inr True
   \<and> get_exactly_compatible ex_V3 (ex_data 1 0) = Some ex_V1
   \<and> is_valid_exactly (ex_env False) ex_V1 (ex_data 1 0)
   \<and> list_all (inherit_ok (ex_env False)) (versions_after ex_V1 ex_V3)
   \<and> versions_after ex_V1 ex_V3 = [ex_V2, ex_V3]
   \<and> upgrade (ex_env False) ex_V3 (ex_data 1 0) True = ([ex_V2, ex_V3], Inr (ex_data 3 0))
   \<and> adheres (ex_env False) ex_V3 (ex_data 3 0)"
proof -
  have h1: "MetaVersion_gt ex_V3 ex_V1 = Inr True"
    by (simp add: MetaVersion_gt_def issubclass_def ex_defs)
  have h2: "get_exactly_compatible ex_V3 (ex_data 1 0) = Some ex_V1"
    by (simp add: get_exactly_compatible_def is_compatible_exactly_def ex_defs)
  have h3: "is_valid_exactly (ex_env False) ex_V1 (ex_data 1 0)"
    by (simp add: is_valid_exactly_def validate_exactly_def ex_defs)
  have v: "versions_after ex_V1 ex_V3 = [ex_V2, ex_V3]"
    by (simp add: ex_defs)
  have h4: "list_all (inherit_ok (ex_env False)) (versions_after ex_V1 ex_V3)"
    unfolding v using ex_inherit_ok_V2 ex_inherit_ok_V3 by simp
  have u: "upgrade (ex_env False) ex_V3 (ex_data 1 0) True = ([ex_V2, ex_V3], Inr (ex_data 3 0))"
    by (simp add: upgrade_def deepcopy_def is_valid_exactly_def validate_exactly_def
        is_compatible_exactly_def ex_defs)
  show ?thesis
    using h1 h2 h3 h4 v u upgrade_from_older[OF h1 h2 h3 h4, of True] by auto
qed

text \<open>
  Claim C7. For data exactly compatible with \<open>V\<close> (and valid at it, which only the heavy
  assertion looks at), \<^verbatim>\<open>upgrade\<close> returns the data as it is and calls no transform.
\<close>

theorem upgrade_same_version:
  "is_compatible_exactly V D \<Longrightarrow> LIGHT_ASSERTS env \<or> is_valid_exactly env V D \<Longrightarrow>
   upgrade env V D copy = ([], Inr D)"
  by (rule upgrade_noop)

theorem upgrade_same_version_witness:
  "is_compatible_exactly ex_V2 (ex_data 2 0)
   \<and> is_valid_exactly (ex_env False) ex_V2 (ex_data 2 0)
   \<and> upgrade (ex_env False) ex_V2 (ex_data 2 0) True = ([], Inr (ex_data 2 0))"
proof -
  have c: "is_compatible_exactly ex_V2 (ex_data 2 0)"
    by (simp add: is_compatible_exactly_def ex_defs)
  have v: "is_valid_exactly (ex_env False) ex_V2 (ex_data 2 0)"
    by (simp add: is_valid_exactly_def validate_exactly_def ex_defs)
  show ?thesis
    using c v upgrade_same_version[of ex_V2 "ex_data 2 0" "ex_env False" True] by simp
qed

text \<open>
  Claim C8. For data valid at \<open>V\<close> or at an ancestor of \<open>V\<close>, with the transforms after the
  anchor keeping their contract, upgrading the upgraded data gives the upgraded data again:
  the first call succeeds, and the second call returns its result unchanged, calling no
  transform.
\<close>

theorem upgrade_idempotent:
  assumes "get_exactly_compatible V D = Some A"
    and "is_valid_exactly env A D"
    and "list_all (inherit_ok env) (versions_after A V)"
  shows "upgrade_twice env V D = snd (upgrade env V D True)
         \<and> (\<exists>D'. snd (upgrade env V D True) = Inr D' \<and> upgrade env V D' True = ([], Inr D'))"
proof -
  obtain D' where u: "upgrade env V D True = (versions_after A V, Inr D')" and a: "adheres env V D'"
    using upgrade_anchor[OF assms, of True] by blast
  have "upgrade env V D' True = ([], Inr D')"
    using a upgrade_noop[of V D' env True] by (simp add: adheres_def)
  then show ?thesis
    using u by (simp add: upgrade_twice_def)
qed

theorem upgrade_idempotent_witness:
  "get_exactly_compatible ex_V3 (ex_data 1 0) = Some ex_V1
   \<and> is_valid_exactly (ex_env False) ex_V1 (ex_data 1 0)
   \<and> list_all (inherit_ok (ex_env False)) (versions_after ex_V1 ex_V3)
   \<and> snd (upgrade (ex_env False) ex_V3 (ex_data 1 0) True) = Inr (ex_data 3 0)
   \<and> upgrade_twice (ex_env False) ex_V3 (ex_data 1 0) = Inr (ex_data 3 0)"
proof -
  have h2: "get_exactly_compatible ex_V3 (ex_data 1 0) = Some ex_V1"
    by (simp add: get_exactly_compatible_def is_compatible_exactly_def ex_defs)
  have h3: "is_valid_exactly (ex_env False) ex_V1 (ex_data 1 0)"
    by (simp add: is_valid_exactly_def validate_exactly_def ex_defs)
  have v: "versions_after ex_V1 ex_V3 = [ex_V2, ex_V3]"
    by (simp add: ex_defs)
  have h4: "list_all (inherit_ok (ex_env False)) (versions_after ex_V1 ex_V3)"
    unfolding v using ex_inherit_ok_V2 ex_inherit_ok_V3 by simp
  have u: "snd (upgrade (ex_env False) ex_V3 (ex_data 1 0) True) = Inr (ex_data 3 0)"
    by (simp add: upgrade_def deepcopy_def is_valid_exactly_def validate_exactly_def
        is_compatible_exactly_def ex_defs)
  show ?thesis
    using h2 h3 h4 u upgrade_idempotent[OF h2 h3 h4] by simp
qed

text \<open>
  Claim C5. With no exactly compatible version in the lineage \<^verbatim>\<open>upgrade\<close> is to fail
  with the validation error of the data against the schema of the target version, and with
  no other error. The method does so only when that validation fails. Here the target
  version has the empty schema, which accepts every document, and the dataset is the empty
  dictionary: no version is exactly compatible, the validation passes, and the method
  raises \<^verbatim>\<open>AssertionError\<close>, under light and under heavy assertions.
\<close>

theorem upgrade_no_anchor_assertion:
  "get_exactly_compatible ex_lax (JObj []) = None
   \<and> jsonschema_validate (ex_env True) (JObj []) (json (own ex_lax)) = None
   \<and> validate_exactly (ex_env True) ex_lax (JObj []) = Inr (JObj [])
   \<and> upgrade (ex_env True) ex_lax (JObj []) True = ([], Inl AssertionError)
   \<and> upgrade (ex_env False) ex_lax (JObj []) True = ([], Inl AssertionError)"
  by (simp add: upgrade_def get_exactly_compatible_def deepcopy_def validate_exactly_def
      is_compatible_exactly_def ex_defs)

section \<open>Merge\<close>

subsection \<open>The combination of two datasets\<close>

lemma map_fst_setitem:
  "map fst (setitem k v kvs) = (if k \<in> set (map fst kvs) then map fst kvs else map fst kvs @ [k])"
  by (induction kvs) force+

lemma merge_obj_lists_obj:
  assumes "distinct names"
    and "list_all (\<lambda>k. k \<in> set (map fst skvs) \<longrightarrow>
           is_obj_list (map_of skvs k) \<and> is_obj_list (map_of tkvs k)) names"
  shows "\<exists>rkvs. merge_obj_lists names (JObj tkvs) (JObj skvs) = Inr (JObj rkvs)
     \<and> (\<forall>k. map_of rkvs k =
           (if k \<in> set names \<and> k \<in> set (map fst skvs)
            then Some (JArr (records tkvs k @ records skvs k)) else map_of tkvs k))
     \<and> map fst rkvs =
         map fst tkvs @ filter (\<lambda>k. k \<in> set (map fst skvs) \<and> k \<notin> set (map fst tkvs)) names"
  using assms
proof (induction names arbitrary: tkvs)
  case Nil
  then show ?case by simp
next
  case (Cons n names)
  show ?case
  proof (cases "n \<in> set (map fst skvs)")
    case False
    have "list_all (\<lambda>k. k \<in> set (map fst skvs) \<longrightarrow>
           is_obj_list (map_of skvs k) \<and> is_obj_list (map_of tkvs k)) names"
      using Cons.prems by simp
    then obtain rkvs where r: "merge_obj_lists names (JObj tkvs) (JObj skvs) = Inr (JObj rkvs)"
      "\<forall>k. map_of rkvs k =
           (if k \<in> set names \<and> k \<in> set (map fst skvs)
            then Some (JArr (records tkvs k @ records skvs k)) else map_of tkvs k)"
      "map fst rkvs =
         map fst tkvs @ filter (\<lambda>k. k \<in> set (map fst skvs) \<and> k \<notin> set (map fst tkvs)) names"
      using Cons.IH[of tkvs] Cons.prems(1) by auto
    show ?thesis
      using False r by auto
  next
    case True
    then obtain new where new: "map_of skvs n = Some (JArr new)"
      using Cons.prems(2)
      by (cases "map_of skvs n") (auto simp: is_obj_list_def map_of_eq_None_iff split: jval.splits)
    have old: "py_get (JObj tkvs) n (JArr []) = Inr (JArr (records tkvs n))"
      using Cons.prems(2) True
      by (auto simp: is_obj_list_def records_def split: option.splits jval.splits)
    let ?t' = "setitem n (JArr (records tkvs n @ new)) tkvs"
    have same: "map_of ?t' k = map_of tkvs k" if "k \<in> set names" for k
      using that Cons.prems(1) by (auto simp: map_of_setitem)
    have "list_all (\<lambda>k. k \<in> set (map fst skvs) \<longrightarrow>
           is_obj_list (map_of skvs k) \<and> is_obj_list (map_of ?t' k)) names"
      using Cons.prems(2) same by (auto simp: list_all_iff)
    then obtain rkvs where r: "merge_obj_lists names (JObj ?t') (JObj skvs) = Inr (JObj rkvs)"
      "\<forall>k. map_of rkvs k =
           (if k \<in> set names \<and> k \<in> set (map fst skvs)
            then Some (JArr (records ?t' k @ records skvs k)) else map_of ?t' k)"
      "map fst rkvs =
         map fst ?t' @ filter (\<lambda>k. k \<in> set (map fst skvs) \<and> k \<notin> set (map fst ?t')) names"
      using Cons.IH[of ?t'] Cons.prems(1) by auto
    have m: "merge_obj_lists (n # names) (JObj tkvs) (JObj skvs) = Inr (JObj rkvs)"
      using True new old r(1) by simp
    have v: "map_of rkvs k =
           (if k \<in> set (n # names) \<and> k \<in> set (map fst skvs)
            then Some (JArr (records tkvs k @ records skvs k)) else map_of tkvs k)" for k
      using r(2) same[of k] True new Cons.prems(1)
      by (auto simp: records_def map_of_setitem)
    have "n \<notin> set names"
      using Cons.prems(1) by simp
    then have f: "filter (\<lambda>k. k \<in> set (map fst skvs) \<and> k \<notin> set (map fst ?t')) names
        = filter (\<lambda>k. k \<in> set (map fst skvs) \<and> k \<notin> set (map fst tkvs)) names"
      by (intro filter_cong) (auto simp: map_fst_setitem)
    have o: "map fst rkvs =
         map fst tkvs @ filter (\<lambda>k. k \<in> set (map fst skvs) \<and> k \<notin> set (map fst tkvs)) (n # names)"
      unfolding r(3) f using True by (simp add: map_fst_setitem)
    show ?thesis
      using m v o by blast
  qed
qed

lemma merge_obj_lists_root:
  "[] \<notin> set (map fst skvs) \<Longrightarrow>
   merge_obj_lists names target (JObj skvs) =
     merge_obj_lists (filter (\<lambda>k. k \<noteq> []) names) target (JObj skvs)"
proof (induction names arbitrary: target)
  case Nil
  then show ?case by simp
next
  case (Cons n names)
  show ?case
  proof (cases "n = []")
    case True
    then show ?thesis using Cons by simp
  next
    case False
    then show ?thesis using Cons by (simp split: sum.splits bool.splits)
  qed
qed

subsection \<open>The claim on merge\<close>

text \<open>
  Claim C2. \<^verbatim>\<open>merge\<close> is to combine over the keys of the working version's tree other
  than the empty root key, which names no collection. The loop of the method goes through
  every key of the tree. Here the target and the source are valid for the version, the
  target has nothing under the empty key and the source has a list there: going through
  the keys other than the root leaves the target as it is, while the method returns the
  target with the source's list under the empty key, under light and under heavy
  assertions; \<^verbatim>\<open>count\<close>, which skips the root key, counts one object in the result and
  none in the source.
\<close>

theorem merge_root_key:
  "valid_for (ex_env False) ex_V1 (ex_data 1 0)
   \<and> valid_for (ex_env False) ex_V1 ex_rooted
   \<and> py_in [] (ex_data 1 0) = Inr False
   \<and> py_in [] ex_rooted = Inr True
   \<and> merge_obj_lists (filter (\<lambda>k. k \<noteq> []) (map fst (tree (own ex_V1)))) (ex_data 1 0) ex_rooted
       = Inr (ex_data 1 0)
   \<and> merge (ex_env False) ex_V1 (ex_data 1 0) [ex_rooted] =
       Inr (JObj [(''version'', ver_doc 1 0),
                  (''checkouts'', JArr [JObj [(''id'', JStr ''c1'')]]),
                  ([], JArr [JStr ''x''])])
   \<and> merge (ex_env True) ex_V1 (ex_data 1 0) [ex_rooted] =
       Inr (JObj [(''version'', ver_doc 1 0),
                  (''checkouts'', JArr [JObj [(''id'', JStr ''c1'')]]),
                  ([], JArr [JStr ''x''])])
   \<and> count (ex_env False) ex_V1
        (JObj [(''version'', ver_doc 1 0),
               (''checkouts'', JArr [JObj [(''id'', JStr ''c1'')]]),
               ([], JArr [JStr ''x''])]) = Inr 1
   \<and> count (ex_env False) ex_V1 ex_rooted = Inr 0"
  by (simp add: ex_rooted_def merge_def merge_state_def merge_source_def issubclass_def upgrade_def
      count_def valid_for_def is_compatible_def is_valid_def validate_def is_valid_exactly_def
      validate_exactly_def get_exactly_compatible_def deepcopy_def is_compatible_exactly_def ex_defs)

end
